theory Spec2Isabelle
  imports Complex_Main "HOL-Library.AList"
begin

section \<open>JavaScript values and objects\<close>

text \<open>
  A JavaScript number is a finite value (a rational: every double is one, and \<open>-0\<close> is
  not told from \<open>0\<close>, which no comparison or truth test here does either), an infinity or
  \<open>NaN\<close>. Field values of a record are JavaScript primitives. A string is a sequence of
  code units below 256.

  An object keeps its own keys in insertion order (for keys that are not array indices,
  which is what field names are here), and writing a key that is already there keeps its
  place: this is \<open>AList.update\<close> on an association list.
\<close>

datatype jsnum = NFin rat | NPosInf | NNegInf | NNaN

datatype jsval = JUndefined | JNull | JBool bool | JNumber jsnum | JStr string

abbreviation JNum :: "rat \<Rightarrow> jsval" where
  "JNum r \<equiv> JNumber (NFin r)"

abbreviation JNaN :: jsval where
  "JNaN \<equiv> JNumber NNaN"

text \<open>\<^verbatim>\<open>a < b\<close> on numbers: false as soon as one side is \<open>NaN\<close>.\<close>

fun num_less :: "jsnum \<Rightarrow> jsnum \<Rightarrow> bool" where
  "num_less NNaN b = False"
| "num_less a NNaN = False"
| "num_less NPosInf b = False"
| "num_less a NNegInf = False"
| "num_less NNegInf b = True"
| "num_less a NPosInf = True"
| "num_less (NFin x) (NFin y) = (x < y)"

type_synonym jsobject = "(string \<times> jsval) list"

text \<open>
  \<^verbatim>\<open>object[fieldName]\<close>: a missing key reads as \<open>undefined\<close>. This is so for every name but
  the dozen \<open>Object.prototype\<close> defines; the theorems below read such a name only where the
  object holds it as an own key.
\<close>

definition get_field :: "jsobject \<Rightarrow> string \<Rightarrow> jsval" where
  "get_field obj f = (case map_of obj f of None \<Rightarrow> JUndefined | Some v \<Rightarrow> v)"

text \<open>\<^verbatim>\<open>{ ...a, ...b }\<close>: the keys of \<open>b\<close> are written over \<open>a\<close>, left to right.\<close>

definition spread :: "('k \<times> 'v) list \<Rightarrow> ('k \<times> 'v) list \<Rightarrow> ('k \<times> 'v) list" where
  "spread a b = foldl (\<lambda>acc kv. AList.update (fst kv) (snd kv) acc) a b"

text \<open>JavaScript truthiness of a primitive.\<close>

fun truthy :: "jsval \<Rightarrow> bool" where
  "truthy JUndefined = False"
| "truthy JNull = False"
| "truthy (JBool b) = b"
| "truthy (JNumber n) = (n \<noteq> NFin 0 \<and> n \<noteq> NNaN)"
| "truthy (JStr s) = (s \<noteq> [])"

text \<open>\<^verbatim>\<open>value.length\<close> of a truthy primitive: only a string has one.\<close>

fun js_length :: "jsval \<Rightarrow> nat option" where
  "js_length (JStr s) = Some (length s)"
| "js_length _ = None"

text \<open>
  \<^verbatim>\<open>Number(value)\<close>. The reading of a string is the runtime's and is a parameter.
\<close>

fun to_number :: "(string \<Rightarrow> jsnum) \<Rightarrow> jsval \<Rightarrow> jsnum" where
  "to_number s2n JUndefined = NNaN"
| "to_number s2n JNull = NFin 0"
| "to_number s2n (JBool b) = NFin (if b then 1 else 0)"
| "to_number s2n (JNumber n) = n"
| "to_number s2n (JStr s) = s2n s"

text \<open>
  Decimal digits of a natural number: how a template string prints the length of an array.
\<close>

definition digit_char :: "nat \<Rightarrow> char" where
  "digit_char n = char_of (48 + n)"

fun show_nat :: "nat \<Rightarrow> string" where
  "show_nat n = (if n < 10 then [digit_char n] else show_nat (n div 10) @ [digit_char (n mod 10)])"

declare show_nat.simps [simp del]

text \<open>
  A value inside a template string. How a number prints (digits, a fraction, an exponent
  from \<open>1e21\<close> on) is the runtime's and is a parameter.
\<close>

fun js_to_string :: "(jsnum \<Rightarrow> string) \<Rightarrow> jsval \<Rightarrow> string" where
  "js_to_string n2s JUndefined = ''undefined''"
| "js_to_string n2s JNull = ''null''"
| "js_to_string n2s (JBool b) = (if b then ''true'' else ''false'')"
| "js_to_string n2s (JNumber n) = n2s n"
| "js_to_string n2s (JStr s) = s"

section \<open>Schemas, route parameters, errors\<close>

record fieldConfig =
  ftype :: string
  required :: bool
  maxLength :: "jsnum option"
  fmin :: "jsnum option"
  fmax :: "jsnum option"

record schema =
  collection :: string
  schema_fields :: "(string \<times> fieldConfig) list option"

record params =
  p_collection :: "string option"
  p_id :: "string option"

text \<open>
  The ambient context of a hook: the route parameters, \<^verbatim>\<open>context.schemas\<close>, the user's
  answer to a confirm dialog (by its message), and the runtime's reading of a string as a
  number and printing of a number as a string.
\<close>

record env =
  params :: params
  schemas :: "schema list option"
  userConfirms :: "string \<Rightarrow> bool"
  stringToNumber :: "string \<Rightarrow> jsnum"
  numberToString :: "jsnum \<Rightarrow> string"

text \<open>A thrown value: a string, or an error object with an optional \<open>message\<close>.\<close>

datatype jserror = ErrString string | ErrObject "string option"

text \<open>The message \<^verbatim>\<open>showError\<close> of useBasePage puts into its dialog.\<close>

fun error_message :: "jserror \<Rightarrow> string" where
  "error_message (ErrString s) = s"
| "error_message (ErrObject None) = ''An error occurred''"
| "error_message (ErrObject (Some m)) = (if m = [] then ''An error occurred'' else m)"

text \<open>\<^verbatim>\<open>params?.collection || ""\<close>\<close>

definition getCollectionName :: "env \<Rightarrow> string" where
  "getCollectionName d = (case p_collection (params d) of None \<Rightarrow> [] | Some c \<Rightarrow> c)"

text \<open>\<^verbatim>\<open>context.schemas?.find((s) => s.collection === getCollectionName())\<close>\<close>

definition find_schema :: "env \<Rightarrow> schema option" where
  "find_schema d =
     (case schemas d of None \<Rightarrow> None
      | Some ss \<Rightarrow> List.find (\<lambda>s. collection s = getCollectionName d) ss)"

section \<open>The schema-driven validator\<close>

record validation =
  isValid :: bool
  errors :: "(string \<times> string) list"

text \<open>
  The body of the \<^verbatim>\<open>forEach\<close> of validateForm for one schema field: three rules in the
  source's order, each writing \<^verbatim>\<open>errors[fieldName]\<close>, a later one over an earlier one.
  Each rule gives the message it writes, if it fires.
\<close>

definition required_rule :: "string \<Rightarrow> fieldConfig \<Rightarrow> jsval \<Rightarrow> string option" where
  "required_rule fieldName cfg v =
     (if required cfg \<and> (\<not> truthy v \<or> v = JStr [])
      then Some (fieldName @ '' is required'') else None)"

definition string_rule ::
  "(jsnum \<Rightarrow> string) \<Rightarrow> string \<Rightarrow> fieldConfig \<Rightarrow> jsval \<Rightarrow> string option" where
  "string_rule n2s fieldName cfg v =
     (case maxLength cfg of
        None \<Rightarrow> None
      | Some m \<Rightarrow>
          if ftype cfg = ''String'' \<and> truthy (JNumber m) \<and> truthy v
             \<and> (case js_length v of None \<Rightarrow> False | Some l \<Rightarrow> num_less m (NFin (of_nat l)))
          then Some (fieldName @ '' must be less than '' @ n2s m @ '' characters'')
          else None)"

definition number_rule ::
  "(string \<Rightarrow> jsnum) \<Rightarrow> (jsnum \<Rightarrow> string) \<Rightarrow> string \<Rightarrow> fieldConfig \<Rightarrow> jsval
     \<Rightarrow> string option" where
  "number_rule s2n n2s fieldName cfg v =
     (if ftype cfg = ''Number'' \<and> v \<noteq> JUndefined \<and> v \<noteq> JNull
      then (let numValue = to_number s2n v
            in if numValue = NNaN
               then Some (fieldName @ '' must be a valid number'')
               else if fmin cfg \<noteq> None \<and> num_less numValue (the (fmin cfg))
               then Some (fieldName @ '' must be at least '' @ n2s (the (fmin cfg)))
               else if fmax cfg \<noteq> None \<and> num_less (the (fmax cfg)) numValue
               then Some (fieldName @ '' must be at most '' @ n2s (the (fmax cfg)))
               else None)
      else None)"

text \<open>
  \<^verbatim>\<open>errors[fieldName] = message\<close> on the plain object \<open>errors\<close>. For the name
  \<open>__proto__\<close> the assignment reaches the setter of \<open>Object.prototype\<close>, which ignores a
  string: no key is added. Every other name becomes, or stays, an own key.
\<close>

definition write_error ::
  "string \<Rightarrow> string option \<Rightarrow> (string \<times> string) list \<Rightarrow> (string \<times> string) list" where
  "write_error fieldName msg errs =
     (case msg of
        None \<Rightarrow> errs
      | Some m \<Rightarrow> if fieldName = ''__proto__'' then errs else AList.update fieldName m errs)"

definition validate_field ::
  "env \<Rightarrow> jsobject \<Rightarrow> (string \<times> string) list \<Rightarrow> string \<times> fieldConfig
     \<Rightarrow> (string \<times> string) list" where
  "validate_field d obj errs fc =
     (let fieldName = fst fc; cfg = snd fc; v = get_field obj fieldName
      in write_error fieldName (number_rule (stringToNumber d) (numberToString d) fieldName cfg v)
           (write_error fieldName (string_rule (numberToString d) fieldName cfg v)
              (write_error fieldName (required_rule fieldName cfg v) errs)))"

text \<open>
  validateForm reads the object of the render it closes over (\<^verbatim>\<open>state.object\<close>); no
  matching schema gives the permissive result.
\<close>

definition validateForm :: "env \<Rightarrow> jsobject \<Rightarrow> validation" where
  "validateForm d obj =
     (case find_schema d of
        None \<Rightarrow> \<lparr>isValid = True, errors = []\<rparr>
      | Some sch \<Rightarrow>
          (let errs = foldl (validate_field d obj) []
                        (case schema_fields sch of None \<Rightarrow> [] | Some fs \<Rightarrow> fs)
           in \<lparr>isValid = (length errs = 0), errors = errs\<rparr>))"

section \<open>Queries and the effects a presenter has on its collaborators\<close>

text \<open>
  A where-clause is an object whose values are plain values, a regular-expression match
  \<^verbatim>\<open>{ $regex, $options }\<close>, or the array of an \<^verbatim>\<open>$or\<close>.
\<close>

datatype cond = CValue jsval | CRegex string string | COr "(string \<times> cond) list list"

type_synonym whereclause = "(string \<times> cond) list"

record query =
  q_where :: whereclause
  q_limit :: int
  q_skip :: int
  q_sort :: "(string \<times> int) list"

text \<open>
  Every call a presenter makes on an injected use case, on useBasePage (toast, confirm
  dialog, error dialog) or on the router is recorded, in order.
\<close>

datatype event =
    FindCall string query
  | CountCall string whereclause
  | DeleteCall string string
  | GetCall string string
  | UpsertCall string jsobject
  | ShowToast string string
  | ShowConfirm string string string string string
  | ShowError jserror
  | Navigate string

text \<open>
  A hook instance: \<open>live\<close> is the state React holds (what the next render will see) and
  \<open>trace\<close> the calls made so far. A callback made by \<^verbatim>\<open>useCallback\<close> reads the constant
  \<^verbatim>\<open>state\<close> of the render that created it: every handler below takes that render's state
  as its first argument \<open>s\<close>, and writes through \<^verbatim>\<open>setState(prev => ...)\<close>, which acts
  on \<open>live\<close>. A handler called on a freshly rendered component has \<open>s = live w\<close>.
  An \<^verbatim>\<open>async\<close> handler is run to its end, each use case giving its answer when called; a
  use case is the answer it gives to each call, \<open>Inl\<close> when it throws. The \<^verbatim>\<open>useEffect\<close>s
  that call loadData after a render appear as calls of loadData in the scenarios.
\<close>

record 'st world =
  live :: 'st
  trace :: "event list"

definition setState :: "('st \<Rightarrow> 'st) \<Rightarrow> ('st, 'm) world_scheme \<Rightarrow> ('st, 'm) world_scheme" where
  "setState upd w = w\<lparr>live := upd (live w)\<rparr>"

definition emit :: "event \<Rightarrow> ('st, 'm) world_scheme \<Rightarrow> ('st, 'm) world_scheme" where
  "emit e w = w\<lparr>trace := trace w @ [e]\<rparr>"

section \<open>The form presenter (useFormPresenter)\<close>

record FormState =
  form_loading :: bool
  object :: jsobject
  change :: jsobject
  advanced :: bool
  dirty :: bool
  submitting :: bool

definition initialFormState :: FormState where
  "initialFormState =
     \<lparr>form_loading = True, object = [], change = [], advanced = False, dirty = False,
      submitting = False\<rparr>"

record form_usecases =
  getObjectUseCase :: "string \<Rightarrow> string \<Rightarrow> jserror + jsobject"
  upsertObjectUseCase :: "string \<Rightarrow> jsobject \<Rightarrow> jserror + jsobject"

text \<open>loadData of the form: fetches the object unless the route id is missing or "new".\<close>

definition form_loadData :: "env \<Rightarrow> form_usecases \<Rightarrow> FormState world \<Rightarrow> FormState world" where
  "form_loadData d uc w =
     (case p_id (params d) of
        None \<Rightarrow> setState (\<lambda>p. p\<lparr>form_loading := False\<rparr>) w
      | Some i \<Rightarrow>
          if i \<noteq> [] \<and> i \<noteq> ''new''
          then (let w1 = setState (\<lambda>p. p\<lparr>form_loading := True\<rparr>) w;
                    w2 = emit (GetCall (getCollectionName d) i) w1
                in case getObjectUseCase uc (getCollectionName d) i of
                     Inr obj \<Rightarrow> setState (\<lambda>p. p\<lparr>object := obj, form_loading := False\<rparr>) w2
                   | Inl err \<Rightarrow> emit (ShowError err) (setState (\<lambda>p. p\<lparr>form_loading := False\<rparr>) w2))
          else setState (\<lambda>p. p\<lparr>form_loading := False\<rparr>) w)"

definition handleFieldChange ::
  "FormState \<Rightarrow> string \<Rightarrow> jsval \<Rightarrow> FormState world \<Rightarrow> FormState world" where
  "handleFieldChange s field v w =
     (let newChange = AList.update field v (change s);
          newObject = AList.update field v (object s)
      in setState (\<lambda>p. p\<lparr>object := newObject, change := newChange, dirty := True\<rparr>) w)"

text \<open>
  handleSubmit: the re-entrancy guard, the validation gate, then one upsert call with
  \<^verbatim>\<open>state.object\<close>; the create route navigates to the saved record.
\<close>

definition handleSubmit ::
  "FormState \<Rightarrow> env \<Rightarrow> form_usecases \<Rightarrow> FormState world \<Rightarrow> FormState world" where
  "handleSubmit s d uc w =
     (if submitting s then w
      else if \<not> isValid (validateForm d (object s))
      then emit (ShowToast ''Please fix validation errors'' ''error'') w
      else
        (let w1 = setState (\<lambda>p. p\<lparr>submitting := True\<rparr>) w;
             w2 = emit (UpsertCall (getCollectionName d) (object s)) w1
         in case upsertObjectUseCase uc (getCollectionName d) (object s) of
              Inr result \<Rightarrow>
                (let w3 = emit (ShowToast ''Data saved successfully'' ''success'') w2;
                     w4 = setState (\<lambda>p. p\<lparr>dirty := False, submitting := False\<rparr>) w3
                 in if p_id (params d) = Some ''new''
                    then emit (Navigate (''/collections/'' @ getCollectionName d @ ''/form/''
                                 @ js_to_string (numberToString d) (get_field result ''id''))) w4
                    else w4)
            | Inl err \<Rightarrow> emit (ShowError err) (setState (\<lambda>p. p\<lparr>submitting := False\<rparr>) w2)))"

section \<open>The list presenter (useListPresenter)\<close>

record ListState =
  loading :: bool
  objects :: "jsobject list"
  selected :: "string list"
  count :: int
  current :: int
  limit :: int
  search :: string
  filters :: whereclause
  sortspec :: "(string \<times> int) list"

definition initialListState :: ListState where
  "initialListState =
     \<lparr>loading = True, objects = [], selected = [], count = 0, current = 1, limit = 20,
      search = [], filters = [], sortspec = [(''created'', - 1)]\<rparr>"

record list_usecases =
  findObjectsUseCase :: "string \<Rightarrow> query \<Rightarrow> jserror + jsobject list"
  countObjectsUseCase :: "string \<Rightarrow> whereclause \<Rightarrow> jserror + int"
  deleteObjectUseCase :: "string \<Rightarrow> string \<Rightarrow> jserror + unit"

text \<open>
  A pending \<^verbatim>\<open>setTimeout\<close>: its id, the time it is due, and the render whose \<^verbatim>\<open>reset\<close> and
  \<^verbatim>\<open>loadData\<close> its callback holds. Time is counted in milliseconds.
\<close>

record timer =
  timer_id :: nat
  due :: nat
  captured :: ListState

record list_world = "ListState world" +
  searchTimeoutRef :: "nat option"
  pending :: "timer list"
  now :: nat
  next_id :: nat

definition initialListWorld :: list_world where
  "initialListWorld =
     \<lparr>live = initialListState, trace = [], searchTimeoutRef = None, pending = [], now = 0,
      next_id = 1\<rparr>"

definition setTimeout :: "ListState \<Rightarrow> nat \<Rightarrow> list_world \<Rightarrow> nat \<times> list_world" where
  "setTimeout s delay w =
     (next_id w,
      w\<lparr>pending := pending w @ [\<lparr>timer_id = next_id w, due = now w + delay, captured = s\<rparr>],
        next_id := next_id w + 1\<rparr>)"

definition clearTimeout :: "nat \<Rightarrow> list_world \<Rightarrow> list_world" where
  "clearTimeout tid w = w\<lparr>pending := filter (\<lambda>t. timer_id t \<noteq> tid) (pending w)\<rparr>"

text \<open>
  \<^verbatim>\<open>search.trim()\<close> removes white space and line terminators at both ends: among the
  code units below 256 these are tab, line feed, vertical tab, form feed, carriage return,
  space and the no-break space.
\<close>

definition is_space :: "char \<Rightarrow> bool" where
  "is_space c =
     (c \<in> set [CHR '' '', CHR 0x09, CHR 0x0A, CHR 0x0B, CHR 0x0C, CHR 0x0D, CHR 0xA0])"

definition trim :: "string \<Rightarrow> string" where
  "trim s = rev (dropWhile is_space (rev (dropWhile is_space s)))"

definition buildWhere :: "ListState \<Rightarrow> env \<Rightarrow> whereclause" where
  "buildWhere s d =
     (if trim (search s) = [] then spread [] (filters s)
      else
        (let decl = (case find_schema d of
                       None \<Rightarrow> []
                     | Some sch \<Rightarrow> (case schema_fields sch of None \<Rightarrow> [] | Some fs \<Rightarrow> fs));
             flds = map (\<lambda>fp. [(fst fp, CRegex (search s) ''i'')])
                      (filter (\<lambda>fp. ftype (snd fp) = ''String'') decl)
         in spread [(''$or'', COr flds)] (filters s)))"

definition find_query :: "ListState \<Rightarrow> env \<Rightarrow> query" where
  "find_query s d =
     \<lparr>q_where = buildWhere s d, q_limit = limit s, q_skip = (current s - 1) * limit s,
      q_sort = sortspec s\<rparr>"

text \<open>
  loadData runs synchronously up to its first \<^verbatim>\<open>await\<close>: it raises the loading flag and
  issues the find call (\<open>loadData_request\<close>). The rest runs when the use cases answer
  (\<open>loadData_settle\<close>): the count call, then one state update, or the catch branch.
\<close>

definition loadData_request ::
  "ListState \<Rightarrow> env \<Rightarrow> (ListState, 'm) world_scheme \<Rightarrow> (ListState, 'm) world_scheme" where
  "loadData_request s d w =
     emit (FindCall (getCollectionName d) (find_query s d))
       (setState (\<lambda>p. p\<lparr>loading := True\<rparr>) w)"

definition loadData_failed ::
  "jserror \<Rightarrow> (ListState, 'm) world_scheme \<Rightarrow> (ListState, 'm) world_scheme" where
  "loadData_failed err w = emit (ShowError err) (setState (\<lambda>p. p\<lparr>loading := False\<rparr>) w)"

definition loadData_settle ::
  "ListState \<Rightarrow> env \<Rightarrow> list_usecases \<Rightarrow> (ListState, 'm) world_scheme
     \<Rightarrow> (ListState, 'm) world_scheme" where
  "loadData_settle s d uc w =
     (case findObjectsUseCase uc (getCollectionName d) (find_query s d) of
        Inl err \<Rightarrow> loadData_failed err w
      | Inr page \<Rightarrow>
          (let w1 = emit (CountCall (getCollectionName d) (buildWhere s d)) w
           in case countObjectsUseCase uc (getCollectionName d) (buildWhere s d) of
                Inl err \<Rightarrow> loadData_failed err w1
              | Inr c \<Rightarrow>
                  setState (\<lambda>p. p\<lparr>objects := objects s @ page, count := c, loading := False\<rparr>) w1))"

definition loadData ::
  "ListState \<Rightarrow> env \<Rightarrow> list_usecases \<Rightarrow> (ListState, 'm) world_scheme
     \<Rightarrow> (ListState, 'm) world_scheme" where
  "loadData s d uc w = loadData_settle s d uc (loadData_request s d w)"

text \<open>
  loadMore, likewise: what one call does synchronously (\<open>loadMore_request\<close>), and the call
  run to completion (\<open>loadMore\<close>).
\<close>

definition loadMore_request ::
  "ListState \<Rightarrow> env \<Rightarrow> (ListState, 'm) world_scheme \<Rightarrow> (ListState, 'm) world_scheme" where
  "loadMore_request s d w =
     (if \<not> loading s
      then loadData_request s d (setState (\<lambda>p. p\<lparr>current := current s + 1\<rparr>) w)
      else w)"

definition loadMore ::
  "ListState \<Rightarrow> env \<Rightarrow> list_usecases \<Rightarrow> (ListState, 'm) world_scheme
     \<Rightarrow> (ListState, 'm) world_scheme" where
  "loadMore s d uc w =
     (if \<not> loading s
      then loadData s d uc (setState (\<lambda>p. p\<lparr>current := current s + 1\<rparr>) w)
      else w)"

definition reset :: "(ListState, 'm) world_scheme \<Rightarrow> (ListState, 'm) world_scheme" where
  "reset w = setState (\<lambda>p. p\<lparr>current := 1, objects := [], selected := []\<rparr>) w"

text \<open>
  handleSearchChange: cancel the pending timer, write the search term, start a new timer
  of 500 ms whose callback is \<^verbatim>\<open>reset(); loadData()\<close> of this render.
\<close>

definition handleSearchChange :: "ListState \<Rightarrow> string \<Rightarrow> list_world \<Rightarrow> list_world" where
  "handleSearchChange s v w =
     (let w1 = (case searchTimeoutRef w of
                  None \<Rightarrow> w
                | Some tid \<Rightarrow> if tid \<noteq> 0 then clearTimeout tid w else w);
          w2 = setState (\<lambda>p. p\<lparr>search := v\<rparr>) w1;
          r = setTimeout s 500 w2
      in (snd r)\<lparr>searchTimeoutRef := Some (fst r)\<rparr>)"

definition timer_callback :: "env \<Rightarrow> list_usecases \<Rightarrow> list_world \<Rightarrow> timer \<Rightarrow> list_world" where
  "timer_callback d uc w t = loadData (captured t) d uc (reset w)"

text \<open>Time passes: the timers that fall due fire, earliest first.\<close>

definition elapse :: "nat \<Rightarrow> env \<Rightarrow> list_usecases \<Rightarrow> list_world \<Rightarrow> list_world" where
  "elapse dt d uc w =
     (let t = now w + dt;
          ready = filter (\<lambda>tm. due tm \<le> t) (pending w);
          w1 = w\<lparr>pending := filter (\<lambda>tm. \<not> due tm \<le> t) (pending w), now := t\<rparr>
      in foldl (timer_callback d uc) w1 (sort_key due ready))"

text \<open>The sequential loop of the bulk delete: it stops at the first call that throws.\<close>

fun delete_each ::
  "list_usecases \<Rightarrow> string \<Rightarrow> string list \<Rightarrow> (ListState, 'm) world_scheme
     \<Rightarrow> (jserror + unit) \<times> (ListState, 'm) world_scheme" where
  "delete_each uc c [] w = (Inr (), w)"
| "delete_each uc c (i # ids) w =
     (let w1 = emit (DeleteCall c i) w
      in case deleteObjectUseCase uc c i of
           Inl err \<Rightarrow> (Inl err, w1)
         | Inr u \<Rightarrow> delete_each uc c ids w1)"

definition handleDelete ::
  "ListState \<Rightarrow> env \<Rightarrow> list_usecases \<Rightarrow> string \<Rightarrow> (ListState, 'm) world_scheme
     \<Rightarrow> (ListState, 'm) world_scheme" where
  "handleDelete s d uc i w =
     (let msg = ''Are you sure you want to delete this item?'';
          w1 = emit (ShowConfirm msg ''Confirm Delete'' ''Delete'' ''Cancel'' ''danger'') w
      in if userConfirms d msg
         then (let w2 = emit (DeleteCall (getCollectionName d) i) w1
               in case deleteObjectUseCase uc (getCollectionName d) i of
                    Inl err \<Rightarrow> emit (ShowError err) w2
                  | Inr u \<Rightarrow>
                      loadData s d uc
                        (reset (emit (ShowToast ''Item deleted successfully'' ''success'') w2)))
         else w1)"

definition bulk_message :: "string list \<Rightarrow> string" where
  "bulk_message sel =
     ''Are you sure you want to delete '' @ show_nat (length sel) @ '' selected items?''"

definition handleBulkDelete ::
  "ListState \<Rightarrow> env \<Rightarrow> list_usecases \<Rightarrow> (ListState, 'm) world_scheme
     \<Rightarrow> (ListState, 'm) world_scheme" where
  "handleBulkDelete s d uc w =
     (if length (selected s) = 0
      then emit (ShowToast ''No items selected'' ''warning'') w
      else
        (let w1 = emit (ShowConfirm (bulk_message (selected s)) ''Confirm Bulk Delete''
                          ''Delete All'' ''Cancel'' ''danger'') w
         in if userConfirms d (bulk_message (selected s))
            then (case delete_each uc (getCollectionName d) (selected s) w1 of
                    (Inl err, w2) \<Rightarrow> emit (ShowError err) w2
                  | (Inr u, w2) \<Rightarrow>
                      loadData s d uc
                        (reset (emit (ShowToast (show_nat (length (selected s))
                                        @ '' items deleted successfully'') ''success'') w2)))
            else w1))"

text \<open>
  A burst of key presses in the search box: before each one some time passes (its first
  component, in ms), then the handler of the current render is called with the new value.
\<close>

definition key_press :: "env \<Rightarrow> list_usecases \<Rightarrow> list_world \<Rightarrow> nat \<times> string \<Rightarrow> list_world" where
  "key_press d uc w k =
     (let w1 = elapse (fst k) d uc w in handleSearchChange (live w1) (snd k) w1)"

definition type_keys :: "env \<Rightarrow> list_usecases \<Rightarrow> (nat \<times> string) list \<Rightarrow> list_world \<Rightarrow> list_world" where
  "type_keys d uc ks w = foldl (key_press d uc) w ks"

text \<open>
  A hook instance is \<open>quiet\<close> when no timer is pending, and \<open>armed\<close> when the only pending
  timer is the one the ref holds, set just now.
\<close>

definition armed :: "list_world \<Rightarrow> bool" where
  "armed w =
     (case pending w of
        [t] \<Rightarrow> due t = now w + 500 \<and> searchTimeoutRef w = Some (timer_id t) \<and> timer_id t \<noteq> 0
               \<and> next_id w \<noteq> 0
      | _ \<Rightarrow> False)"

definition quiet :: "list_world \<Rightarrow> bool" where
  "quiet w = (pending w = [] \<and> next_id w \<noteq> 0)"

section \<open>Notions of the specification, and example data\<close>

text \<open>
  The message validateForm leaves for one declared field: the last rule that fires wins.
\<close>

definition field_message :: "env \<Rightarrow> jsobject \<Rightarrow> string \<Rightarrow> fieldConfig \<Rightarrow> string option" where
  "field_message d obj f cfg =
     (case number_rule (stringToNumber d) (numberToString d) f cfg (get_field obj f) of
        Some m \<Rightarrow> Some m
      | None \<Rightarrow> (case string_rule (numberToString d) f cfg (get_field obj f) of
                   Some m \<Rightarrow> Some m
                 | None \<Rightarrow> required_rule f cfg (get_field obj f)))"

text \<open>A required-field error, in the specification's sense: the required rule's message.\<close>

definition reports_required_error :: "validation \<Rightarrow> string \<Rightarrow> bool" where
  "reports_required_error r f = (map_of (errors r) f = Some (f @ '' is required''))"

text \<open>
  Example data: route parameters, contexts, field declarations. The examples print only
  small whole numbers, which the runtime prints in decimal digits (it does so for every
  whole number below \<open>10^21\<close> in absolute value); \<open>ex_number_to_string\<close> is the runtime's
  printing on these, on the infinities and on \<open>NaN\<close>, and is not meant beyond them. No
  example reads a string as a number.
\<close>

definition show_int :: "int \<Rightarrow> string" where
  "show_int i = (if i < 0 then CHR ''-'' # show_nat (nat (- i)) else show_nat (nat i))"

definition ex_number_to_string :: "jsnum \<Rightarrow> string" where
  "ex_number_to_string n =
     (case n of
        NFin r \<Rightarrow> if r = of_int \<lfloor>r\<rfloor> \<and> \<bar>r\<bar> < 10 ^ 21 then show_int \<lfloor>r\<rfloor> else []
      | NPosInf \<Rightarrow> ''Infinity''
      | NNegInf \<Rightarrow> ''-Infinity''
      | NNaN \<Rightarrow> ''NaN'')"

definition ex_params :: "string \<Rightarrow> params" where
  "ex_params i = \<lparr>p_collection = Some ''posts'', p_id = Some i\<rparr>"

definition ex_env :: "string \<Rightarrow> schema list option \<Rightarrow> env" where
  "ex_env i ss =
     \<lparr>params = ex_params i, schemas = ss, userConfirms = (\<lambda>m. True),
      stringToNumber = (\<lambda>s. NNaN), numberToString = ex_number_to_string\<rparr>"

definition ex_name_cfg :: fieldConfig where
  "ex_name_cfg = \<lparr>ftype = ''String'', required = True, maxLength = None, fmin = None, fmax = None\<rparr>"

definition ex_views_cfg :: fieldConfig where
  "ex_views_cfg =
     \<lparr>ftype = ''Number'', required = True, maxLength = None, fmin = Some (NFin 1), fmax = None\<rparr>"

definition ex_flag_cfg :: fieldConfig where
  "ex_flag_cfg = \<lparr>ftype = ''Boolean'', required = True, maxLength = None, fmin = None, fmax = None\<rparr>"

definition ex_schema :: "(string \<times> fieldConfig) list \<Rightarrow> schema" where
  "ex_schema fs = \<lparr>collection = ''posts'', schema_fields = Some fs\<rparr>"

text \<open>
  The payload the specification asks handleSubmit to send: the full object when creating,
  \<^verbatim>\<open>{ id, ...change }\<close> when editing.
\<close>

definition spec_upsert_payload :: "env \<Rightarrow> FormState \<Rightarrow> jsobject" where
  "spec_upsert_payload d s =
     (case p_id (params d) of
        None \<Rightarrow> object s
      | Some i \<Rightarrow> if i = ''new'' then object s else spread [(''id'', JStr i)] (change s))"

text \<open>
  The two dirty-tracking contracts the specification names: structural difference from
  the original snapshot, and "the change map is non-empty".
\<close>

definition structurally_dirty :: "jsobject \<Rightarrow> FormState \<Rightarrow> bool" where
  "structurally_dirty original st = (object st \<noteq> original)"

definition dirty_matches_change :: "FormState \<Rightarrow> bool" where
  "dirty_matches_change st = (dirty st = (change st \<noteq> []))"

text \<open>
  The where-clause of a reload that searches for the value \<open>v\<close>.
\<close>

definition spec_search_where :: "env \<Rightarrow> ListState \<Rightarrow> string \<Rightarrow> whereclause" where
  "spec_search_where d s v = buildWhere (s\<lparr>search := v\<rparr>) d"

definition is_find_call :: "event \<Rightarrow> bool" where
  "is_find_call e = (case e of FindCall c q \<Rightarrow> True | _ \<Rightarrow> False)"

definition is_show_error :: "event \<Rightarrow> bool" where
  "is_show_error e = (case e of ShowError err \<Rightarrow> True | _ \<Rightarrow> False)"

text \<open>
  An edit session of the form: record 42 of "posts" is loaded, \<open>name\<close> is changed
  (or set back to what it was), and the form is submitted; the upsert use case returns
  what it was given.
\<close>

definition ex_loaded_object :: jsobject where
  "ex_loaded_object = [(''id'', JStr ''42''), (''name'', JStr ''Old''), (''age'', JNum 3)]"

definition ex_form_usecases :: form_usecases where
  "ex_form_usecases =
     \<lparr>getObjectUseCase = (\<lambda>c i. Inr ex_loaded_object), upsertObjectUseCase = (\<lambda>c obj. Inr obj)\<rparr>"

definition ex_form_loaded :: "FormState world" where
  "ex_form_loaded =
     form_loadData (ex_env ''42'' None) ex_form_usecases \<lparr>live = initialFormState, trace = []\<rparr>"

definition ex_form_edited :: "FormState world" where
  "ex_form_edited = handleFieldChange (live ex_form_loaded) ''name'' (JStr ''New'') ex_form_loaded"

definition ex_form_reverted :: "FormState world" where
  "ex_form_reverted = handleFieldChange (live ex_form_loaded) ''name'' (JStr ''Old'') ex_form_loaded"

definition ex_form_submitted :: "FormState world" where
  "ex_form_submitted =
     handleSubmit (live ex_form_edited) (ex_env ''42'' None) ex_form_usecases ex_form_edited"

text \<open>
  A list page of "posts": the find use case answers every query with one record, the
  count use case with 40, and deleting record \<open>b\<close> fails. The page is mounted (first
  load); then it is loaded again, or loadMore is called twice from the same render, or
  "fo" and, 100 ms later, "foo" are typed into the search box and 500 ms pass.
\<close>

definition ex_list_env :: env where
  "ex_list_env = ex_env ''new'' (Some [ex_schema [(''title'', ex_name_cfg), (''views'', ex_views_cfg)]])"

definition ex_list_usecases :: list_usecases where
  "ex_list_usecases =
     \<lparr>findObjectsUseCase = (\<lambda>c q. Inr [[(''id'', JStr ''b'')]]),
      countObjectsUseCase = (\<lambda>c wh. Inr 40),
      deleteObjectUseCase = (\<lambda>c i. if i = ''b'' then Inl (ErrString ''gone'') else Inr ())\<rparr>"

definition ex_list_mounted :: list_world where
  "ex_list_mounted = loadData initialListState ex_list_env ex_list_usecases initialListWorld"

definition ex_list_reloaded :: list_world where
  "ex_list_reloaded = loadData (live ex_list_mounted) ex_list_env ex_list_usecases ex_list_mounted"

definition ex_list_more_twice :: list_world where
  "ex_list_more_twice =
     loadMore_request (live ex_list_mounted) ex_list_env
       (loadMore_request (live ex_list_mounted) ex_list_env ex_list_mounted)"

definition ex_typed_fo :: list_world where
  "ex_typed_fo = handleSearchChange (live ex_list_mounted) ''fo'' ex_list_mounted"

definition ex_typed_foo :: list_world where
  "ex_typed_foo =
     (let w = elapse 100 ex_list_env ex_list_usecases ex_typed_fo
      in handleSearchChange (live w) ''foo'' w)"

definition ex_typed_quiet :: list_world where
  "ex_typed_quiet = elapse 500 ex_list_env ex_list_usecases ex_typed_foo"

definition ex_selection :: ListState where
  "ex_selection = initialListState\<lparr>loading := False, selected := [''a'', ''b'', ''c'']\<rparr>"

definition ex_selection_world :: "ListState world" where
  "ex_selection_world = \<lparr>live = ex_selection, trace = []\<rparr>"

section \<open>The validator: proofs\<close>

lemma write_error_proto: "write_error ''__proto__'' msg errs = errs"
  by (simp add: write_error_def split: option.splits)

lemma map_of_write_error:
  "f \<noteq> ''__proto__'' \<Longrightarrow>
   map_of (write_error f msg errs) g =
     (if g = f then (case msg of None \<Rightarrow> map_of errs f | Some m \<Rightarrow> Some m) else map_of errs g)"
  by (simp add: write_error_def update_conv' split: option.splits)

lemma map_of_validate_field:
  "map_of (validate_field d obj errs (f, cfg)) g =
     (if g = f \<and> f \<noteq> ''__proto__''
      then (case field_message d obj f cfg of Some m \<Rightarrow> Some m | None \<Rightarrow> map_of errs f)
      else map_of errs g)"
proof (cases "f = ''__proto__''")
  case True
  then show ?thesis by (simp add: validate_field_def Let_def write_error_proto)
next
  case False
  then show ?thesis
    by (simp add: validate_field_def Let_def field_message_def map_of_write_error
          split: option.splits)
qed

lemma map_of_validate_other:
  "g \<notin> fst ` set fs \<Longrightarrow> map_of (foldl (validate_field d obj) errs fs) g = map_of errs g"
proof (induction fs arbitrary: errs)
  case Nil
  then show ?case by simp
next
  case (Cons fc fs)
  obtain f cfg where fc: "fc = (f, cfg)" by (cases fc)
  from Cons.prems have "g \<noteq> f" "g \<notin> fst ` set fs" by (auto simp: fc)
  then show ?case using Cons.IH [of "validate_field d obj errs fc"]
    by (simp add: fc map_of_validate_field)
qed

lemma map_of_validate_fields:
  assumes "distinct (map fst fs)" and "(f, cfg) \<in> set fs" and "f \<noteq> ''__proto__''"
  shows "map_of (foldl (validate_field d obj) errs fs) f =
           (case field_message d obj f cfg of Some m \<Rightarrow> Some m | None \<Rightarrow> map_of errs f)"
  using assms(1,2)
proof (induction fs arbitrary: errs)
  case Nil
  then show ?case by simp
next
  case (Cons fc fs)
  obtain f' cfg' where fc: "fc = (f', cfg')" by (cases fc)
  show ?case
  proof (cases "(f, cfg) = fc")
    case True
    then have eq: "f' = f" "cfg' = cfg" by (simp_all add: fc)
    from Cons.prems(1) have "f \<notin> fst ` set fs" by (simp add: fc eq)
    then show ?thesis
      using assms(3) by (simp add: fc eq map_of_validate_other map_of_validate_field)
  next
    case False
    with Cons.prems have mem: "(f, cfg) \<in> set fs" and dis: "distinct (map fst fs)" by auto
    from mem have "f \<in> fst ` set fs" by force
    with Cons.prems(1) have ne: "f \<noteq> f'" by (auto simp: fc)
    have "map_of (validate_field d obj errs fc) f = map_of errs f"
      using ne by (simp add: fc map_of_validate_field)
    then show ?thesis using Cons.IH [OF dis mem, of "validate_field d obj errs fc"]
      by (simp split: option.splits)
  qed
qed

lemma falsy_required_rule:
  "required cfg \<Longrightarrow> \<not> truthy v \<Longrightarrow> required_rule f cfg v = Some (f @ '' is required'')"
  by (simp add: required_rule_def)

lemma falsy_string_rule: "\<not> truthy v \<Longrightarrow> string_rule n2s f cfg v = None"
  by (simp add: string_rule_def split: option.splits)

lemma zero_number_rule:
  assumes "v = JNum 0 \<or> v = JBool False"
  shows "number_rule s2n n2s f cfg v =
     (if ftype cfg = ''Number'' \<and> fmin cfg \<noteq> None \<and> num_less (NFin 0) (the (fmin cfg))
      then Some (f @ '' must be at least '' @ n2s (the (fmin cfg)))
      else if ftype cfg = ''Number'' \<and> fmax cfg \<noteq> None \<and> num_less (the (fmax cfg)) (NFin 0)
      then Some (f @ '' must be at most '' @ n2s (the (fmax cfg)))
      else None)"
proof -
  have n: "to_number s2n v = NFin 0" and u: "v \<noteq> JUndefined" "v \<noteq> JNull"
    using assms by auto
  show ?thesis unfolding number_rule_def n Let_def using u by simp
qed

lemma falsy_field_message:
  assumes "required cfg" and "v = JNum 0 \<or> v = JBool False" and "get_field obj f = v"
  shows "field_message d obj f cfg =
     Some (if ftype cfg = ''Number'' \<and> fmin cfg \<noteq> None \<and> num_less (NFin 0) (the (fmin cfg))
           then f @ '' must be at least '' @ numberToString d (the (fmin cfg))
           else if ftype cfg = ''Number'' \<and> fmax cfg \<noteq> None
                   \<and> num_less (the (fmax cfg)) (NFin 0)
           then f @ '' must be at most '' @ numberToString d (the (fmax cfg))
           else f @ '' is required'')"
proof -
  have f: "\<not> truthy v" using assms(2) by auto
  show ?thesis
    unfolding field_message_def assms(3) zero_number_rule [OF assms(2)]
      falsy_string_rule [OF f] falsy_required_rule [OF assms(1) f]
    by simp
qed

lemma validateForm_no_schema:
  "find_schema d = None \<Longrightarrow> validateForm d obj = \<lparr>isValid = True, errors = []\<rparr>"
  by (simp add: validateForm_def)

lemma validateForm_schema:
  "find_schema d = Some sch \<Longrightarrow> schema_fields sch = Some fs \<Longrightarrow>
   validateForm d obj =
     \<lparr>isValid = (foldl (validate_field d obj) [] fs = []),
      errors = foldl (validate_field d obj) [] fs\<rparr>"
  by (simp add: validateForm_def Let_def)

text \<open>
  A field named \<open>__proto__\<close> never gets an error, whatever its declaration and its value:
  a form whose schema declares only that field is valid.
\<close>

lemma proto_field_reports_nothing:
  assumes "find_schema d = Some sch" and "schema_fields sch = Some [(''__proto__'', cfg)]"
  shows "validateForm d obj = \<lparr>isValid = True, errors = []\<rparr>"
  by (simp add: validateForm_schema [OF assms] validate_field_def Let_def write_error_proto)

lemma find_schema_ex: "find_schema (ex_env i (Some [ex_schema fs])) = Some (ex_schema fs)"
  by (simp add: find_schema_def ex_env_def ex_schema_def ex_params_def getCollectionName_def)

lemma schema_fields_ex: "schema_fields (ex_schema fs) = Some fs"
  by (simp add: ex_schema_def)

lemma find_schema_ex_none: "find_schema (ex_env i None) = None"
  by (simp add: find_schema_def ex_env_def)

text \<open>
  Claim C7. validateForm on the empty object, against a schema whose only field is a
  required String field \<open>name\<close>, is invalid and binds \<open>errors.name\<close> to the non-empty
  message "name is required"; when no schema matches the collection it is valid, with
  an empty error map.
\<close>

theorem validateForm_required_name:
  "(find_schema d = Some sch \<and> schema_fields sch = Some [(''name'', cfg)] \<and> required cfg
      \<and> ftype cfg = ''String''
    \<longrightarrow> validateForm d [] = \<lparr>isValid = False, errors = [(''name'', ''name is required'')]\<rparr>)
   \<and> (find_schema d' = None \<longrightarrow> validateForm d' [] = \<lparr>isValid = True, errors = []\<rparr>)"
proof (intro conjI impI)
  assume a: "find_schema d = Some sch \<and> schema_fields sch = Some [(''name'', cfg)] \<and> required cfg
      \<and> ftype cfg = ''String''"
  then have sch: "find_schema d = Some sch" and fs: "schema_fields sch = Some [(''name'', cfg)]"
    and req: "required cfg" and ty: "ftype cfg = ''String''"
    by simp_all
  have r: "required_rule ''name'' cfg JUndefined = Some ''name is required''"
    using falsy_required_rule [OF req, of JUndefined "''name''"] by simp
  have t: "string_rule (numberToString d) ''name'' cfg JUndefined = None"
    by (simp add: falsy_string_rule)
  have n: "number_rule (stringToNumber d) (numberToString d) ''name'' cfg JUndefined = None"
    by (simp add: number_rule_def)
  have "validate_field d [] [] (''name'', cfg) = [(''name'', ''name is required'')]"
    by (simp add: validate_field_def get_field_def r t n write_error_def)
  then show "validateForm d [] = \<lparr>isValid = False, errors = [(''name'', ''name is required'')]\<rparr>"
    by (simp add: validateForm_schema [OF sch fs])
next
  assume "find_schema d' = None"
  then show "validateForm d' [] = \<lparr>isValid = True, errors = []\<rparr>"
    by (rule validateForm_no_schema)
qed

theorem validateForm_required_name_witness:
  "validateForm (ex_env ''new'' (Some [ex_schema [(''name'', ex_name_cfg)]])) []
     = \<lparr>isValid = False, errors = [(''name'', ''name is required'')]\<rparr>
   \<and> validateForm (ex_env ''new'' None) [] = \<lparr>isValid = True, errors = []\<rparr>"
  using validateForm_required_name
    [of "ex_env ''new'' (Some [ex_schema [(''name'', ex_name_cfg)]])"
        "ex_schema [(''name'', ex_name_cfg)]" ex_name_cfg "ex_env ''new'' None"]
  by (simp add: find_schema_ex find_schema_ex_none schema_fields_ex) (simp add: ex_name_cfg_def)

text \<open>
  Claim C9, as stated, fails: a required Number field with \<open>min = 1\<close> and the value 0.
  The required rule fires, and the Number rule then writes its own message over it, so the
  error reported for the field is not the required-field error.
\<close>

theorem required_falsy_counterexample:
  "find_schema (ex_env ''new'' (Some [ex_schema [(''views'', ex_views_cfg)]]))
     = Some (ex_schema [(''views'', ex_views_cfg)])
   \<and> required ex_views_cfg
   \<and> get_field [(''views'', JNum 0)] ''views'' = JNum 0
   \<and> errors (validateForm (ex_env ''new'' (Some [ex_schema [(''views'', ex_views_cfg)]]))
        [(''views'', JNum 0)]) = [(''views'', ''views must be at least 1'')]
   \<and> \<not> reports_required_error
         (validateForm (ex_env ''new'' (Some [ex_schema [(''views'', ex_views_cfg)]]))
            [(''views'', JNum 0)]) ''views''"
proof -
  have s: "show_int 1 = ''1''" by code_simp
  have p: "ex_number_to_string (NFin 1) = ''1''"
    by (simp add: ex_number_to_string_def s)
  have e: "errors (validateForm (ex_env ''new'' (Some [ex_schema [(''views'', ex_views_cfg)]]))
        [(''views'', JNum 0)]) = [(''views'', ''views must be at least 1'')]"
    by (simp add: validateForm_schema [OF find_schema_ex schema_fields_ex])
       (simp add: validate_field_def get_field_def required_rule_def string_rule_def
          number_rule_def write_error_def ex_views_cfg_def p ex_env_def)
  show ?thesis
    unfolding reports_required_error_def e
    by (simp add: find_schema_ex) (simp add: ex_views_cfg_def get_field_def)
qed

text \<open>
  Claim C9, amended. For every declared field \<open>f\<close> with \<open>required\<close> set, other than a field
  named \<open>__proto__\<close> (for which no error is ever recorded), field names being distinct as
  the keys of an object are: whenever \<open>object[f]\<close> is the number 0 or the boolean false,
  the form is invalid and an error is reported for \<open>f\<close>. It is the required-field message,
  unless \<open>f\<close> is of type Number and 0 lies below its \<open>min\<close> or above its \<open>max\<close>, in which
  case the Number rule's message, ending in that bound as the runtime prints it, stands
  in its place. The bounds are any numbers: whole, fractional, infinite or \<open>NaN\<close>.
\<close>

theorem required_falsy_reports_error:
  assumes "find_schema d = Some sch" and "schema_fields sch = Some fs"
    and "distinct (map fst fs)" and "(f, cfg) \<in> set fs" and "required cfg"
    and "f \<noteq> ''__proto__''"
    and "get_field obj f = JNum 0 \<or> get_field obj f = JBool False"
  shows "\<not> isValid (validateForm d obj)
     \<and> map_of (errors (validateForm d obj)) f =
         Some (if ftype cfg = ''Number'' \<and> fmin cfg \<noteq> None
                  \<and> num_less (NFin 0) (the (fmin cfg))
               then f @ '' must be at least '' @ numberToString d (the (fmin cfg))
               else if ftype cfg = ''Number'' \<and> fmax cfg \<noteq> None
                       \<and> num_less (the (fmax cfg)) (NFin 0)
               then f @ '' must be at most '' @ numberToString d (the (fmax cfg))
               else f @ '' is required'')"
proof -
  let ?es = "foldl (validate_field d obj) [] fs"
  let ?m = "if ftype cfg = ''Number'' \<and> fmin cfg \<noteq> None
                  \<and> num_less (NFin 0) (the (fmin cfg))
               then f @ '' must be at least '' @ numberToString d (the (fmin cfg))
               else if ftype cfg = ''Number'' \<and> fmax cfg \<noteq> None
                       \<and> num_less (the (fmax cfg)) (NFin 0)
               then f @ '' must be at most '' @ numberToString d (the (fmax cfg))
               else f @ '' is required''"
  have fm: "field_message d obj f cfg = Some ?m"
    by (rule falsy_field_message [OF assms(5) assms(7) refl])
  have m: "map_of ?es f = Some ?m"
    unfolding map_of_validate_fields [OF assms(3) assms(4) assms(6)] fm by simp
  then have ne: "?es \<noteq> []" by auto
  show ?thesis
    unfolding validateForm_schema [OF assms(1) assms(2)] using m ne by simp
qed

theorem required_falsy_reports_error_witness:
  "\<not> isValid (validateForm (ex_env ''new'' (Some [ex_schema [(''flag'', ex_flag_cfg)]]))
        [(''flag'', JBool False)])
   \<and> map_of (errors (validateForm (ex_env ''new'' (Some [ex_schema [(''flag'', ex_flag_cfg)]]))
        [(''flag'', JBool False)])) ''flag'' = Some ''flag is required''"
  using required_falsy_reports_error
    [of "ex_env ''new'' (Some [ex_schema [(''flag'', ex_flag_cfg)]])"
        "ex_schema [(''flag'', ex_flag_cfg)]" "[(''flag'', ex_flag_cfg)]" "''flag''" ex_flag_cfg
        "[(''flag'', JBool False)]"]
  by (simp add: find_schema_ex schema_fields_ex get_field_def) (simp add: ex_flag_cfg_def)

section \<open>The form presenter: proofs\<close>

lemma ex_form_loaded_eq:
  "ex_form_loaded =
     \<lparr>live = \<lparr>form_loading = False, object = ex_loaded_object, change = [], advanced = False,
              dirty = False, submitting = False\<rparr>,
      trace = [GetCall ''posts'' ''42'']\<rparr>"
  by (simp add: ex_form_loaded_def form_loadData_def ex_env_def ex_params_def ex_form_usecases_def
        getCollectionName_def setState_def emit_def initialFormState_def)

lemma ex_form_edited_eq:
  "ex_form_edited =
     \<lparr>live = \<lparr>form_loading = False,
              object = [(''id'', JStr ''42''), (''name'', JStr ''New''), (''age'', JNum 3)],
              change = [(''name'', JStr ''New'')], advanced = False,
              dirty = True, submitting = False\<rparr>,
      trace = [GetCall ''posts'' ''42'']\<rparr>"
  by (simp add: ex_form_edited_def ex_form_loaded_eq handleFieldChange_def setState_def
        ex_loaded_object_def)

lemma ex_form_reverted_eq:
  "ex_form_reverted =
     \<lparr>live = \<lparr>form_loading = False, object = ex_loaded_object,
              change = [(''name'', JStr ''Old'')], advanced = False,
              dirty = True, submitting = False\<rparr>,
      trace = [GetCall ''posts'' ''42'']\<rparr>"
  by (simp add: ex_form_reverted_def ex_form_loaded_eq handleFieldChange_def setState_def
        ex_loaded_object_def)

lemma ex_form_submitted_eq:
  "ex_form_submitted =
     \<lparr>live = \<lparr>form_loading = False,
              object = [(''id'', JStr ''42''), (''name'', JStr ''New''), (''age'', JNum 3)],
              change = [(''name'', JStr ''New'')], advanced = False,
              dirty = False, submitting = False\<rparr>,
      trace = [GetCall ''posts'' ''42'',
               UpsertCall ''posts'' [(''id'', JStr ''42''), (''name'', JStr ''New''), (''age'', JNum 3)],
               ShowToast ''Data saved successfully'' ''success'']\<rparr>"
  by (simp add: ex_form_submitted_def ex_form_edited_eq handleSubmit_def
        validateForm_no_schema [OF find_schema_ex_none])
     (simp add: ex_env_def ex_params_def ex_form_usecases_def getCollectionName_def setState_def
        emit_def)

lemma handleFieldChange_live:
  "live (handleFieldChange s f v w) =
     (live w)\<lparr>object := AList.update f v (object s), change := AList.update f v (change s),
              dirty := True\<rparr>"
  by (simp add: handleFieldChange_def setState_def)

lemma get_field_update: "get_field (AList.update f v obj) f = v"
  by (simp add: get_field_def update_conv')

lemma handleFieldChange_invariant: "dirty_matches_change (live (handleFieldChange s f v w))"
  by (simp add: handleFieldChange_live dirty_matches_change_def)

lemma form_loadData_invariant:
  "dirty_matches_change (live (form_loadData d uc w)) = dirty_matches_change (live w)"
  by (simp add: form_loadData_def setState_def emit_def dirty_matches_change_def Let_def
        split: option.splits sum.splits)

lemma handleSubmit_rejected_invariant:
  assumes "upsertObjectUseCase uc (getCollectionName d) (object s) = Inl err"
  shows "dirty_matches_change (live (handleSubmit s d uc w)) = dirty_matches_change (live w)"
  using assms
  by (simp add: handleSubmit_def setState_def emit_def dirty_matches_change_def Let_def)

lemma handleSubmit_upsert_call:
  assumes "\<not> submitting s" and "isValid (validateForm d (object s))"
  shows "take (Suc (length (trace w))) (trace (handleSubmit s d uc w)) =
           trace w @ [UpsertCall (getCollectionName d) (object s)]"
  using assms
  by (simp add: handleSubmit_def setState_def emit_def Let_def split: sum.splits)

lemma handleSubmit_saved:
  assumes "\<not> submitting s" and "isValid (validateForm d (object s))"
    and "upsertObjectUseCase uc (getCollectionName d) (object s) = Inr r"
  shows "live (handleSubmit s d uc w) = (live w)\<lparr>dirty := False, submitting := False\<rparr>"
  using assms
  by (simp add: handleSubmit_def setState_def emit_def Let_def)

text \<open>
  Claim C2, at an edit of record 42 whose loaded object has the fields \<open>id\<close>, \<open>name\<close> and
  \<open>age\<close>, after \<open>name\<close> was changed to "New": handleSubmit calls the upsert use case with
  the full object, \<open>age\<close> included, where the claim asks for \<^verbatim>\<open>{ id: "42", name: "New" }\<close>.
\<close>

theorem edit_submit_sends_full_object:
  "trace ex_form_submitted =
     [GetCall ''posts'' ''42'',
      UpsertCall ''posts'' [(''id'', JStr ''42''), (''name'', JStr ''New''), (''age'', JNum 3)],
      ShowToast ''Data saved successfully'' ''success'']
   \<and> spec_upsert_payload (ex_env ''42'' None) (live ex_form_edited)
       = [(''id'', JStr ''42''), (''name'', JStr ''New'')]"
  by (simp add: ex_form_submitted_eq ex_form_edited_eq spec_upsert_payload_def ex_env_def
        ex_params_def spread_def)

text \<open>
  Claim C3, as stated, fails: after record 42 is loaded, setting \<open>name\<close> back to its
  loaded value "Old" leaves the object equal to the loaded one, and \<open>dirty\<close> is true.
\<close>

theorem revert_field_counterexample:
  "object (live ex_form_loaded) = ex_loaded_object
   \<and> get_field ex_loaded_object ''name'' = JStr ''Old''
   \<and> object (live ex_form_reverted) = ex_loaded_object
   \<and> dirty (live ex_form_reverted)
   \<and> dirty (live ex_form_reverted) \<noteq> structurally_dirty ex_loaded_object (live ex_form_reverted)"
  by (simp add: ex_form_reverted_eq ex_form_loaded_eq structurally_dirty_def)
     (simp add: ex_loaded_object_def get_field_def)

text \<open>
  Claim C3, amended. After \<open>handleFieldChange(f, v)\<close>, \<open>dirty\<close> is true, whatever the object
  was and whatever \<open>v\<close> is, and both \<open>object[f]\<close> and \<open>change[f]\<close> read \<open>v\<close>: the hook keeps no
  original snapshot, and setting a field back to its loaded value leaves the form dirty.
\<close>

theorem handleFieldChange_marks_dirty:
  "dirty (live (handleFieldChange s f v w))
   \<and> get_field (object (live (handleFieldChange s f v w))) f = v
   \<and> get_field (change (live (handleFieldChange s f v w))) f = v"
  by (simp add: handleFieldChange_live get_field_update)

lemma handleSubmit_saved_invariant:
  assumes "\<not> submitting s" and "isValid (validateForm d (object s))"
    and "upsertObjectUseCase uc (getCollectionName d) (object s) = Inr r"
  shows "dirty_matches_change (live (handleSubmit s d uc w)) = (change (live w) = [])"
  by (simp add: handleSubmit_saved [OF assms] dirty_matches_change_def)

text \<open>
  Claim C4, at the edit session above: the invariant \<open>dirty = (change is non-empty)\<close> holds
  after handleFieldChange, and a successful handleSubmit breaks it: \<open>dirty\<close> is cleared and
  \<open>change\<close> still holds the edit.
\<close>

theorem submit_keeps_change_recorded:
  "dirty_matches_change (live ex_form_edited)
   \<and> \<not> dirty (live ex_form_submitted)
   \<and> change (live ex_form_submitted) = [(''name'', JStr ''New'')]
   \<and> \<not> dirty_matches_change (live ex_form_submitted)"
  by (simp add: ex_form_submitted_eq ex_form_edited_eq dirty_matches_change_def)

section \<open>The list presenter: proofs\<close>

lemma loadData_success:
  assumes "findObjectsUseCase uc (getCollectionName d) (find_query s d) = Inr page"
    and "countObjectsUseCase uc (getCollectionName d) (buildWhere s d) = Inr c"
  shows "loadData s d uc w =
     w\<lparr>live := (live w)\<lparr>loading := False, objects := objects s @ page, count := c\<rparr>,
       trace := trace w @ [FindCall (getCollectionName d) (find_query s d),
                           CountCall (getCollectionName d) (buildWhere s d)]\<rparr>"
  using assms
  by (simp add: loadData_def loadData_settle_def loadData_request_def setState_def emit_def)

lemma ex_find: "findObjectsUseCase ex_list_usecases c q = Inr [[(''id'', JStr ''b'')]]"
  by (simp add: ex_list_usecases_def)

lemma ex_count: "countObjectsUseCase ex_list_usecases c wh = Inr 40"
  by (simp add: ex_list_usecases_def)

lemma ex_collection: "getCollectionName ex_list_env = ''posts''"
  by (simp add: ex_list_env_def ex_env_def ex_params_def getCollectionName_def)

lemma ex_string_fields:
  "find_schema ex_list_env = Some (ex_schema [(''title'', ex_name_cfg), (''views'', ex_views_cfg)])"
  by (simp add: ex_list_env_def find_schema_ex)

lemma buildWhere_blank: "search s = [] \<Longrightarrow> filters s = [] \<Longrightarrow> buildWhere s d = []"
  by (simp add: buildWhere_def trim_def spread_def)

lemma trim_fo: "trim ''fo'' = ''fo''" and trim_foo: "trim ''foo'' = ''foo''"
  by (simp_all add: trim_def is_space_def)

lemma buildWhere_ex:
  assumes "filters s = []" and "trim (search s) \<noteq> []"
  shows "buildWhere s ex_list_env = [(''$or'', COr [[(''title'', CRegex (search s) ''i'')]])]"
  using assms
  by (simp add: buildWhere_def ex_string_fields schema_fields_ex spread_def ex_name_cfg_def
        ex_views_cfg_def)

lemma ex_list_mounted_eq:
  "ex_list_mounted =
     \<lparr>live = initialListState\<lparr>loading := False, objects := [[(''id'', JStr ''b'')]], count := 40\<rparr>,
      trace = [FindCall ''posts'' \<lparr>q_where = [], q_limit = 20, q_skip = 0,
                 q_sort = [(''created'', - 1)]\<rparr>, CountCall ''posts'' []],
      searchTimeoutRef = None, pending = [], now = 0, next_id = 1\<rparr>"
proof -
  have b: "buildWhere initialListState ex_list_env = []"
    by (rule buildWhere_blank) (simp_all add: initialListState_def)
  have q: "find_query initialListState ex_list_env =
      \<lparr>q_where = [], q_limit = 20, q_skip = 0, q_sort = [(''created'', - 1)]\<rparr>"
    by (simp add: find_query_def b) (simp add: initialListState_def)
  show ?thesis
    unfolding ex_list_mounted_def loadData_success [OF ex_find ex_count]
    by (simp add: q b ex_collection initialListWorld_def) (simp add: initialListState_def)
qed

lemma ex_mounted_state:
  "live ex_list_mounted =
     \<lparr>loading = False, objects = [[(''id'', JStr ''b'')]], selected = [], count = 40,
      current = 1, limit = 20, search = [], filters = [], sortspec = [(''created'', - 1)]\<rparr>"
  by (simp add: ex_list_mounted_eq initialListState_def)

lemma ex_mounted_query:
  "find_query (live ex_list_mounted) ex_list_env =
     \<lparr>q_where = [], q_limit = 20, q_skip = 0, q_sort = [(''created'', - 1)]\<rparr>"
  by (simp add: find_query_def buildWhere_blank ex_mounted_state)

text \<open>
  Claim C1, at a second successful loadData on page 1: the page fetched is appended to the
  objects of the first load, where the claim asks for it to replace them. The count is
  the count use case's.
\<close>

theorem reload_page_one_appends:
  "current (live ex_list_mounted) = 1
   \<and> objects (live ex_list_mounted) = [[(''id'', JStr ''b'')]]
   \<and> objects (live ex_list_reloaded) = [[(''id'', JStr ''b'')], [(''id'', JStr ''b'')]]
   \<and> count (live ex_list_reloaded) = 40"
  unfolding ex_list_reloaded_def loadData_success [OF ex_find ex_count]
  by (simp add: ex_mounted_state)

lemma loadMore_request_dropped: "loading s \<Longrightarrow> loadMore_request s d w = w"
  by (simp add: loadMore_request_def)

lemma loadMore_dropped: "loading s \<Longrightarrow> loadMore s d uc w = w"
  by (simp add: loadMore_def)

lemma loadMore_request_idle:
  "\<not> loading s \<Longrightarrow>
   loadMore_request s d w =
     w\<lparr>live := (live w)\<lparr>current := current s + 1, loading := True\<rparr>,
       trace := trace w @ [FindCall (getCollectionName d) (find_query s d)]\<rparr>"
  by (simp add: loadMore_request_def loadData_request_def setState_def emit_def)

lemma loadMore_request_twice:
  assumes "\<not> loading s"
  shows "trace (loadMore_request s d (loadMore_request s d w)) =
           trace w @ [FindCall (getCollectionName d) (find_query s d),
                      FindCall (getCollectionName d) (find_query s d)]"
  by (simp add: loadMore_request_idle [OF assms])

text \<open>
  Claim C6, at two loadMore calls made synchronously from one render of an idle page: the
  guard reads that render's \<open>state.loading\<close>, which the first call does not change, so both
  calls issue a find call (for the same page), where the claim asks for exactly one.
\<close>

theorem loadMore_twice_fetches_twice:
  "\<not> loading (live ex_list_mounted)
   \<and> trace ex_list_more_twice =
       trace ex_list_mounted
       @ [FindCall ''posts'' \<lparr>q_where = [], q_limit = 20, q_skip = 0,
             q_sort = [(''created'', - 1)]\<rparr>,
          FindCall ''posts'' \<lparr>q_where = [], q_limit = 20, q_skip = 0,
             q_sort = [(''created'', - 1)]\<rparr>]
   \<and> length (filter is_find_call (trace ex_list_more_twice))
       = length (filter is_find_call (trace ex_list_mounted)) + 2
   \<and> current (live ex_list_more_twice) = 2"
proof -
  have idle: "\<not> loading (live ex_list_mounted)" by (simp add: ex_mounted_state)
  show ?thesis
    unfolding ex_list_more_twice_def loadMore_request_idle [OF idle]
    by (simp add: ex_mounted_query ex_collection is_find_call_def) (simp add: ex_mounted_state)
qed

lemma ex_typed_fo_eq:
  "ex_typed_fo =
     ex_list_mounted\<lparr>live := (live ex_list_mounted)\<lparr>search := ''fo''\<rparr>,
        searchTimeoutRef := Some 1,
        pending := [\<lparr>timer_id = 1, due = 500, captured = live ex_list_mounted\<rparr>],
        next_id := 2\<rparr>"
  by (simp add: ex_typed_fo_def handleSearchChange_def setTimeout_def setState_def Let_def)
     (simp add: ex_list_mounted_eq)

lemma ex_typed_foo_eq:
  "ex_typed_foo =
     ex_list_mounted\<lparr>live := (live ex_list_mounted)\<lparr>search := ''foo''\<rparr>,
        searchTimeoutRef := Some 2,
        pending := [\<lparr>timer_id = 2, due = 600,
                     captured = (live ex_list_mounted)\<lparr>search := ''fo''\<rparr>\<rparr>],
        now := 100, next_id := 3\<rparr>"
  by (simp add: ex_typed_foo_def ex_typed_fo_eq elapse_def handleSearchChange_def setTimeout_def
        clearTimeout_def setState_def Let_def)
     (simp add: ex_list_mounted_eq)

text \<open>
  The debounce in general. From a quiet instance, a burst of key presses less than 500 ms
  apart makes no call at all; 500 ms after the last one exactly one timer fires, and its
  callback is \<^verbatim>\<open>reset(); loadData()\<close> of the render that handled the last key press, whose
  state is the one before that key press.
\<close>

lemma elapse_quiet: "pending w = [] \<Longrightarrow> elapse dt d uc w = w\<lparr>now := now w + dt\<rparr>"
  by (simp add: elapse_def)

lemma elapse_early:
  assumes "pending w = [t]" and "now w + dt < due t"
  shows "elapse dt d uc w = w\<lparr>now := now w + dt\<rparr>"
proof -
  have "w\<lparr>pending := [t], now := now w + dt\<rparr> = w\<lparr>now := now w + dt\<rparr>"
    using assms(1) by simp
  then show ?thesis using assms by (simp add: elapse_def)
qed

lemma elapse_due:
  assumes "pending w = [t]" and "due t \<le> now w + dt"
  shows "elapse dt d uc w = loadData (captured t) d uc (reset (w\<lparr>pending := [], now := now w + dt\<rparr>))"
  using assms by (simp add: elapse_def timer_callback_def)

lemma search_rearms:
  assumes "pending w = [] \<or> (\<exists>t. pending w = [t] \<and> searchTimeoutRef w = Some (timer_id t) \<and> timer_id t \<noteq> 0)"
  shows "handleSearchChange s v w =
     w\<lparr>live := (live w)\<lparr>search := v\<rparr>,
       pending := [\<lparr>timer_id = next_id w, due = now w + 500, captured = s\<rparr>],
       next_id := next_id w + 1,
       searchTimeoutRef := Some (next_id w)\<rparr>"
  using assms
  by (auto simp: handleSearchChange_def setTimeout_def clearTimeout_def setState_def Let_def
        split: option.splits)

lemma armed_pending:
  assumes "armed w"
  obtains t where "pending w = [t]" and "due t = now w + 500"
    and "searchTimeoutRef w = Some (timer_id t)" and "timer_id t \<noteq> 0" and "next_id w \<noteq> 0"
  using assms by (auto simp: armed_def split: list.splits)

lemma key_press_effect:
  assumes "quiet w \<or> (armed w \<and> fst k < 500)"
  shows "key_press d uc w k =
     w\<lparr>live := (live w)\<lparr>search := snd k\<rparr>,
       pending := [\<lparr>timer_id = next_id w, due = now w + fst k + 500, captured = live w\<rparr>],
       next_id := next_id w + 1,
       searchTimeoutRef := Some (next_id w),
       now := now w + fst k\<rparr>"
  using assms
proof
  assume q: "quiet w"
  then have p: "pending w = []" by (simp add: quiet_def)
  show ?thesis
    unfolding key_press_def elapse_quiet [OF p] Let_def
    by (subst search_rearms) (simp_all add: p)
next
  assume a: "armed w \<and> fst k < 500"
  then obtain t where t: "pending w = [t]" "due t = now w + 500"
    "searchTimeoutRef w = Some (timer_id t)" "timer_id t \<noteq> 0"
    by (auto elim: armed_pending)
  from a t have early: "now w + fst k < due t" by simp
  show ?thesis
    unfolding key_press_def elapse_early [OF t(1) early] Let_def
    using t by (subst search_rearms) simp_all
qed

lemma key_press_armed:
  assumes "quiet w \<or> (armed w \<and> fst k < 500)"
  shows "armed (key_press d uc w k)"
proof -
  from assms have "next_id w \<noteq> 0" by (auto simp: quiet_def elim: armed_pending)
  then show ?thesis unfolding key_press_effect [OF assms] by (simp add: armed_def)
qed

lemma type_keys_snoc: "type_keys d uc (ks @ [k]) w = key_press d uc (type_keys d uc ks w) k"
  by (simp add: type_keys_def)

lemma burst_armed:
  assumes "quiet w" and "ks \<noteq> []" and "\<forall>k\<in>set (tl ks). fst k < 500"
  shows "armed (type_keys d uc ks w) \<and> trace (type_keys d uc ks w) = trace w"
  using assms(2,3)
proof (induction ks rule: rev_induct)
  case Nil
  then show ?case by simp
next
  case (snoc k ks)
  show ?case
  proof (cases "ks = []")
    case True
    have pre: "quiet w \<or> (armed w \<and> fst k < 500)" using assms(1) by simp
    show ?thesis
      using key_press_armed [OF pre, of d uc] key_press_effect [OF pre, of d uc]
      by (simp add: True type_keys_def)
  next
    case False
    with snoc.prems have gaps: "\<forall>k\<in>set (tl ks). fst k < 500" and k: "fst k < 500"
      by auto
    from snoc.IH [OF False gaps]
    have a: "armed (type_keys d uc ks w)" and tr: "trace (type_keys d uc ks w) = trace w"
      by simp_all
    have pre: "quiet (type_keys d uc ks w) \<or> (armed (type_keys d uc ks w) \<and> fst k < 500)"
      using a k by simp
    show ?thesis
      unfolding type_keys_snoc
      using key_press_armed [OF pre, of d uc] key_press_effect [OF pre, of d uc] tr
      by simp
  qed
qed

lemma burst_before_last:
  assumes "quiet w" and "\<forall>k\<in>set (tl (ks @ [k])). fst k < 500"
  shows "quiet (type_keys d uc ks w) \<or> (armed (type_keys d uc ks w) \<and> fst k < 500)"
proof (cases "ks = []")
  case True
  then show ?thesis using assms(1) by (simp add: type_keys_def)
next
  case False
  with assms(2) have gaps: "\<forall>k\<in>set (tl ks). fst k < 500" and k: "fst k < 500" by auto
  from burst_armed [OF assms(1) False gaps] k show ?thesis by simp
qed

lemma debounce_burst:
  assumes "quiet w" and "ks \<noteq> []" and "\<forall>k\<in>set (tl ks). fst k < 500"
  shows "trace (type_keys d uc ks w) = trace w
     \<and> search (live (type_keys d uc ks w)) = snd (last ks)
     \<and> elapse 500 d uc (type_keys d uc ks w) =
         loadData (live (type_keys d uc (butlast ks) w)) d uc
           (reset ((type_keys d uc ks w)\<lparr>pending := [], now := now (type_keys d uc ks w) + 500\<rparr>))"
proof -
  let ?W' = "type_keys d uc (butlast ks) w"
  let ?k = "last ks"
  have ks: "ks = butlast ks @ [?k]" using assms(2) by simp
  have pre: "quiet ?W' \<or> (armed ?W' \<and> fst ?k < 500)"
    using burst_before_last [OF assms(1), of "butlast ks" ?k] assms(3) ks by simp
  have W: "type_keys d uc ks w = key_press d uc ?W' ?k"
    using type_keys_snoc [of d uc "butlast ks" ?k w] ks by simp
  note eff = key_press_effect [OF pre, of d uc]
  have p: "pending (type_keys d uc ks w)
      = [\<lparr>timer_id = next_id ?W', due = now ?W' + fst ?k + 500, captured = live ?W'\<rparr>]"
    and n: "now (type_keys d uc ks w) = now ?W' + fst ?k"
    and s: "search (live (type_keys d uc ks w)) = snd ?k"
    unfolding W eff by simp_all
  have fire: "elapse 500 d uc (type_keys d uc ks w) =
         loadData (live ?W') d uc
           (reset ((type_keys d uc ks w)\<lparr>pending := [], now := now (type_keys d uc ks w) + 500\<rparr>))"
    using elapse_due [OF p, of 500 d uc] n by simp
  from burst_armed [OF assms] s fire show ?thesis by simp
qed

text \<open>
  Claim C5, at "fo" typed and "foo" typed 100 ms later: after the quiet period one reload
  has run (the first timer was cancelled), and its query searches for "fo", the search
  term of the render that made the last handler, where the claim asks for "foo".
\<close>

theorem debounced_reload_uses_stale_search:
  "trace ex_typed_quiet =
     trace ex_list_mounted
     @ [FindCall ''posts''
          \<lparr>q_where = [(''$or'', COr [[(''title'', CRegex ''fo'' ''i'')]])], q_limit = 20,
           q_skip = 0, q_sort = [(''created'', - 1)]\<rparr>,
        CountCall ''posts'' [(''$or'', COr [[(''title'', CRegex ''fo'' ''i'')]])]]
   \<and> search (live ex_typed_quiet) = ''foo''
   \<and> spec_search_where ex_list_env (live ex_typed_foo) ''foo''
       = [(''$or'', COr [[(''title'', CRegex ''foo'' ''i'')]])]
   \<and> pending ex_typed_quiet = []"
proof -
  let ?s = "(live ex_list_mounted)\<lparr>search := ''fo''\<rparr>"
  have b: "buildWhere ?s ex_list_env = [(''$or'', COr [[(''title'', CRegex ''fo'' ''i'')]])]"
    using buildWhere_ex [of ?s] by (simp add: ex_mounted_state trim_fo)
  have q: "find_query ?s ex_list_env =
     \<lparr>q_where = [(''$or'', COr [[(''title'', CRegex ''fo'' ''i'')]])], q_limit = 20,
      q_skip = 0, q_sort = [(''created'', - 1)]\<rparr>"
    by (simp add: find_query_def b) (simp add: ex_mounted_state)
  have sp: "spec_search_where ex_list_env (live ex_typed_foo) ''foo''
       = [(''$or'', COr [[(''title'', CRegex ''foo'' ''i'')]])]"
    unfolding spec_search_where_def
    using buildWhere_ex [of "(live ex_typed_foo)\<lparr>search := ''foo''\<rparr>"]
    by (simp add: ex_typed_foo_eq ex_mounted_state trim_foo)
  have run: "ex_typed_quiet =
      loadData ?s ex_list_env ex_list_usecases
        (reset (ex_typed_foo\<lparr>pending := [], now := 600\<rparr>))"
    by (simp add: ex_typed_quiet_def elapse_def ex_typed_foo_eq timer_callback_def)
  show ?thesis
    unfolding run loadData_success [OF ex_find ex_count] sp
    by (simp add: q b ex_collection reset_def setState_def ex_typed_foo_eq)
qed

lemma delete_each_stops:
  assumes "k < length ids"
    and "\<forall>i<k. deleteObjectUseCase uc c (ids ! i) = Inr ()"
    and "deleteObjectUseCase uc c (ids ! k) = Inl err"
  shows "delete_each uc c ids w =
           (Inl err, w\<lparr>trace := trace w @ map (DeleteCall c) (take (Suc k) ids)\<rparr>)"
  using assms
proof (induction ids arbitrary: k w)
  case Nil
  then show ?case by simp
next
  case (Cons i ids)
  show ?case
  proof (cases k)
    case 0
    with Cons.prems(3) show ?thesis by (simp add: emit_def)
  next
    case (Suc j)
    from Cons.prems(2) Suc have ok: "deleteObjectUseCase uc c i = Inr ()" by auto
    from Cons.prems Suc have j: "j < length ids"
      and before: "\<forall>n<j. deleteObjectUseCase uc c (ids ! n) = Inr ()"
      and at: "deleteObjectUseCase uc c (ids ! j) = Inl err"
      by auto
    show ?thesis
      using Cons.IH [OF j before at, of "emit (DeleteCall c i) w"] ok Suc
      by (simp add: emit_def)
  qed
qed

lemma no_error_in_deletes: "filter is_show_error (map (DeleteCall c) ids) = []"
  by (induction ids) (simp_all add: is_show_error_def)

lemma no_find_in_deletes: "filter is_find_call (map (DeleteCall c) ids) = []"
  by (induction ids) (simp_all add: is_find_call_def)

text \<open>
  Claim C8. In a confirmed bulk delete whose \<open>k\<close>-th delete call fails (the calls before
  it succeeding), the presenter opens the confirm dialog, issues the first \<open>k\<close> delete
  calls in order (the first \<open>k - 1\<close> deletions are done), shows exactly one error and
  does nothing else: no success toast, no reset, no find or count call. The state is
  unchanged, so \<open>selected\<close> is still non-empty.
\<close>

theorem bulk_delete_stops_at_failure:
  assumes "live w = s" and "0 < k" and "k \<le> length (selected s)"
    and "userConfirms d (bulk_message (selected s))"
    and "\<forall>i<k - 1. deleteObjectUseCase uc (getCollectionName d) (selected s ! i) = Inr ()"
    and "deleteObjectUseCase uc (getCollectionName d) (selected s ! (k - 1)) = Inl err"
  shows "handleBulkDelete s d uc w =
           w\<lparr>trace := trace w
                @ ShowConfirm (bulk_message (selected s)) ''Confirm Bulk Delete'' ''Delete All''
                    ''Cancel'' ''danger''
                # map (DeleteCall (getCollectionName d)) (take k (selected s))
                @ [ShowError err]\<rparr>
         \<and> filter is_show_error (trace (handleBulkDelete s d uc w))
             = filter is_show_error (trace w) @ [ShowError err]
         \<and> filter is_find_call (trace (handleBulkDelete s d uc w))
             = filter is_find_call (trace w)
         \<and> live (handleBulkDelete s d uc w) = live w
         \<and> selected (live (handleBulkDelete s d uc w)) \<noteq> []"
proof -
  let ?c = "getCollectionName d"
  let ?w1 = "emit (ShowConfirm (bulk_message (selected s)) ''Confirm Bulk Delete''
                ''Delete All'' ''Cancel'' ''danger'') w"
  from assms(2,3) have pos: "k - 1 < length (selected s)" and sk: "Suc (k - 1) = k"
    and ne: "selected s \<noteq> []"
    by auto
  have loop: "delete_each uc ?c (selected s) ?w1 =
      (Inl err, ?w1\<lparr>trace := trace ?w1 @ map (DeleteCall ?c) (take k (selected s))\<rparr>)"
    using delete_each_stops [OF pos assms(5) assms(6), of ?w1] by (simp only: sk)
  have run: "handleBulkDelete s d uc w =
           w\<lparr>trace := trace w
                @ ShowConfirm (bulk_message (selected s)) ''Confirm Bulk Delete'' ''Delete All''
                    ''Cancel'' ''danger''
                # map (DeleteCall ?c) (take k (selected s))
                @ [ShowError err]\<rparr>"
    using ne assms(4) by (simp add: handleBulkDelete_def loop) (simp add: emit_def)
  show ?thesis
    unfolding run using ne assms(1)
    by (simp add: no_error_in_deletes no_find_in_deletes)
       (simp add: is_show_error_def is_find_call_def)
qed

theorem bulk_delete_stops_at_failure_witness:
  "handleBulkDelete ex_selection ex_list_env ex_list_usecases ex_selection_world =
     ex_selection_world
       \<lparr>trace := [ShowConfirm (bulk_message [''a'', ''b'', ''c'']) ''Confirm Bulk Delete''
                    ''Delete All'' ''Cancel'' ''danger'',
                  DeleteCall ''posts'' ''a'', DeleteCall ''posts'' ''b'',
                  ShowError (ErrString ''gone'')]\<rparr>
   \<and> filter is_show_error
         (trace (handleBulkDelete ex_selection ex_list_env ex_list_usecases ex_selection_world))
       = [ShowError (ErrString ''gone'')]
   \<and> filter is_find_call
         (trace (handleBulkDelete ex_selection ex_list_env ex_list_usecases ex_selection_world))
       = []
   \<and> live (handleBulkDelete ex_selection ex_list_env ex_list_usecases ex_selection_world)
       = ex_selection
   \<and> selected (live (handleBulkDelete ex_selection ex_list_env ex_list_usecases
         ex_selection_world)) = [''a'', ''b'', ''c'']"
proof -
  have sel: "selected ex_selection = [''a'', ''b'', ''c'']"
    by (simp add: ex_selection_def)
  have yes: "userConfirms ex_list_env (bulk_message (selected ex_selection))"
    by (simp add: ex_list_env_def ex_env_def)
  have ok: "\<forall>i<2 - 1. deleteObjectUseCase ex_list_usecases (getCollectionName ex_list_env)
              (selected ex_selection ! i) = Inr ()"
    by (simp add: sel ex_list_usecases_def)
  have bad: "deleteObjectUseCase ex_list_usecases (getCollectionName ex_list_env)
              (selected ex_selection ! (2 - 1)) = Inl (ErrString ''gone'')"
    by (simp add: sel ex_list_usecases_def)
  have lv: "live ex_selection_world = ex_selection" by (simp add: ex_selection_world_def)
  have tr: "trace ex_selection_world = []" by (simp add: ex_selection_world_def)
  show ?thesis
    using bulk_delete_stops_at_failure [OF lv _ _ yes ok bad]
    by (simp add: sel ex_collection tr lv is_show_error_def is_find_call_def)
qed

text \<open>
  Claim C10. handleBulkDelete with an empty selection shows the warning toast and returns:
  no confirm dialog, no delete call, and the state is unchanged.
\<close>

theorem bulk_delete_nothing_selected:
  assumes "selected s = []"
  shows "handleBulkDelete s d uc w = w\<lparr>trace := trace w @ [ShowToast ''No items selected'' ''warning'']\<rparr>
         \<and> live (handleBulkDelete s d uc w) = live w"
  using assms by (simp add: handleBulkDelete_def emit_def)

theorem bulk_delete_nothing_selected_witness:
  "handleBulkDelete initialListState ex_list_env ex_list_usecases initialListWorld =
     initialListWorld\<lparr>trace := [ShowToast ''No items selected'' ''warning'']\<rparr>
   \<and> live (handleBulkDelete initialListState ex_list_env ex_list_usecases initialListWorld)
       = initialListState"
  using bulk_delete_nothing_selected [of initialListState ex_list_env ex_list_usecases
          initialListWorld]
  by (simp add: initialListState_def) (simp add: initialListWorld_def initialListState_def)

end
